theory Spec2Isabelle
  imports Complex_Main
begin

section \<open>Python values used by the vector store and the retriever\<close>

text \<open>
  Python strings are modelled as HOL strings whose characters are the code points
  0..255. The string operations below follow CPython on that range:
  \<^verbatim>\<open>str.isspace\<close> holds for 9..13, 28..32, 133 and 160; \<^verbatim>\<open>str.lower\<close> adds 32 to
  65..90 and to 192..222 except 215.
\<close>

definition newline :: char where
  "newline = CHR 0x0A"

definition is_space :: "char \<Rightarrow> bool" where
  "is_space c =
     (let n = (of_char c :: nat)
      in (9 \<le> n \<and> n \<le> 13) \<or> (28 \<le> n \<and> n \<le> 32) \<or> n = 133 \<or> n = 160)"

definition lower_char :: "char \<Rightarrow> char" where
  "lower_char c =
     (let n = (of_char c :: nat)
      in if (65 \<le> n \<and> n \<le> 90) \<or> (192 \<le> n \<and> n \<le> 222 \<and> n \<noteq> 215)
         then char_of (n + 32) else c)"

text \<open>\<^verbatim>\<open>s.lower()\<close>\<close>

definition lower :: "string \<Rightarrow> string" where
  "lower s = map lower_char s"

text \<open>\<^verbatim>\<open>s.strip()\<close>: leading and trailing whitespace removed.\<close>

definition strip :: "string \<Rightarrow> string" where
  "strip s = rev (dropWhile is_space (rev (dropWhile is_space s)))"

text \<open>
  Splitting at every character that satisfies \<open>p\<close>, keeping empty pieces:
  \<^verbatim>\<open>"".split("\n") == [""]\<close> and \<^verbatim>\<open>"a\n".split("\n") == ["a", ""]\<close>.
\<close>

fun split_at :: "(char \<Rightarrow> bool) \<Rightarrow> string \<Rightarrow> string list" where
  "split_at p [] = [[]]"
| "split_at p (c # cs) =
     (let r = split_at p cs
      in if p c then [] # r else (c # hd r) # tl r)"

text \<open>\<^verbatim>\<open>s.split('\n')\<close>\<close>

definition split_lines :: "string \<Rightarrow> string list" where
  "split_lines s = split_at (\<lambda>c. c = newline) s"

text \<open>\<^verbatim>\<open>s.split()\<close>: runs of whitespace separate the tokens, no token is empty.\<close>

definition split_ws :: "string \<Rightarrow> string list" where
  "split_ws s = filter (\<lambda>w. w \<noteq> []) (split_at is_space s)"

text \<open>\<^verbatim>\<open>w in s\<close> for strings: \<open>w\<close> occurs in \<open>s\<close> as a contiguous substring.\<close>

fun is_prefix :: "string \<Rightarrow> string \<Rightarrow> bool" where
  "is_prefix [] s = True"
| "is_prefix (a # w) [] = False"
| "is_prefix (a # w) (b # s) = (a = b \<and> is_prefix w s)"

fun contains :: "string \<Rightarrow> string \<Rightarrow> bool" where
  "contains [] w = (w = [])"
| "contains (c # cs) w = (is_prefix w (c # cs) \<or> contains cs w)"

text \<open>\<^verbatim>\<open>sep.join(xs)\<close>\<close>

fun join :: "string \<Rightarrow> string list \<Rightarrow> string" where
  "join sep [] = []"
| "join sep [x] = x"
| "join sep (x # y # zs) = x @ sep @ join sep (y # zs)"

text \<open>
  \<^verbatim>\<open>xs[:n]\<close> for a Python int \<open>n\<close>: the first \<open>n\<close> elements, and for a negative
  \<open>n\<close> everything but the last \<open>-n\<close> elements.
\<close>

definition slice_to :: "int \<Rightarrow> 'a list \<Rightarrow> 'a list" where
  "slice_to n xs =
     (if 0 \<le> n then take (nat n) xs else take (length xs - nat (- n)) xs)"

section \<open>services/embeddings.py: keyword\_search\<close>

text \<open>
  \<^verbatim>\<open>score = sum(1 for word in query_lower.split() if word in line.lower())\<close>
\<close>

definition line_score :: "string \<Rightarrow> string \<Rightarrow> nat" where
  "line_score query_lower line =
     length (filter (\<lambda>word. contains (lower line) word) (split_ws query_lower))"

text \<open>
  The loop over the lines: a line is kept when it is not blank and its score is
  positive, and it is appended to \<^verbatim>\<open>scored_lines\<close> with its score.
\<close>

fun score_lines :: "string \<Rightarrow> string list \<Rightarrow> (nat \<times> string) list" where
  "score_lines query_lower [] = []"
| "score_lines query_lower (line # lines) =
     (if length (strip line) > 0
      then (let score = line_score query_lower line
            in if score > 0 then (score, line) # score_lines query_lower lines
               else score_lines query_lower lines)
      else score_lines query_lower lines)"

text \<open>
  \<^verbatim>\<open>scored_lines.sort(key=lambda x: x[0], reverse=True)\<close>: Python's sort is stable,
  also with \<^verbatim>\<open>reverse=True\<close>, so it is the stable sort on the negated score.
\<close>

definition sort_desc :: "(nat \<times> string) list \<Rightarrow> (nat \<times> string) list" where
  "sort_desc scored = sort_key (\<lambda>x. - int (fst x)) scored"

definition ranked_lines :: "string \<Rightarrow> string \<Rightarrow> (nat \<times> string) list" where
  "ranked_lines full_text query =
     sort_desc (score_lines (lower query) (split_lines full_text))"

text \<open>
  The body of keyword\_search has no operation that raises on strings and an int, so
  its \<^verbatim>\<open>except\<close> branch (which returns the empty string) is never taken.
\<close>

definition keyword_search :: "string \<Rightarrow> string \<Rightarrow> int \<Rightarrow> string" where
  "keyword_search full_text query top_k =
     (let scored_lines = score_lines (lower query) (split_lines full_text)
      in if scored_lines \<noteq> []
         then join [newline] (map snd (slice_to top_k (sort_desc scored_lines)))
         else [])"

section \<open>Errors, metadata dictionaries, files\<close>

datatype error = EmbeddingError | DimensionMismatch | IndexError | OSError | ValueError

text \<open>
  A metadata value is a string or \<^verbatim>\<open>None\<close>; a dict is the list of its items
  (\<^verbatim>\<open>{"source": s}\<close> is \<open>[(''source'', PStr s)]\<close>, \<^verbatim>\<open>{}\<close> is \<open>[]\<close>).
\<close>

datatype pyval = PNone | PStr string

type_synonym pydict = "(string \<times> pyval) list"

text \<open>\<^verbatim>\<open>meta.get(k)\<close>: \<^verbatim>\<open>None\<close> for a key that is not there.\<close>

definition dict_get :: "pydict \<Rightarrow> string \<Rightarrow> pyval" where
  "dict_get meta k = (case map_of meta k of None \<Rightarrow> PNone | Some v \<Rightarrow> v)"

definition has_key :: "pydict \<Rightarrow> string \<Rightarrow> bool" where
  "has_key meta k = (map_of meta k \<noteq> None)"

section \<open>The vector index\<close>

text \<open>
  Modelled from the spec: \<^verbatim>\<open>faiss.IndexFlatL2\<close> is an external library and not part
  of the sources. The spec's VectorIndex (section 4.1) stores vectors of a fixed
  dimension; \<^verbatim>\<open>create(dimension)\<close> is an empty index of size 0, \<^verbatim>\<open>add\<close> appends each
  vector as a new row and fails with DimensionMismatch if a vector has another length,
  \<^verbatim>\<open>search(query_vector, k)\<close> returns up to \<open>k\<close> (row-index, distance) pairs sorted by
  ascending squared Euclidean distance, all rows ranked if the index has fewer than
  \<open>k\<close> rows, and fails with DimensionMismatch on a query of the wrong length;
  \<^verbatim>\<open>size()\<close> is the row count. Numbers are reals, not 32-bit floats.
\<close>

type_synonym vector = "real list"

record vector_index =
  vi_dimension :: nat
  vi_rows :: "vector list"

definition index_create :: "nat \<Rightarrow> vector_index" where
  "index_create dimension = \<lparr>vi_dimension = dimension, vi_rows = []\<rparr>"

definition index_size :: "vector_index \<Rightarrow> nat" where
  "index_size ix = length (vi_rows ix)"

definition index_add :: "vector_index \<Rightarrow> vector list \<Rightarrow> error + vector_index" where
  "index_add ix vectors =
     (if list_all (\<lambda>v. length v = vi_dimension ix) vectors
      then Inr (ix\<lparr>vi_rows := vi_rows ix @ vectors\<rparr>)
      else Inl DimensionMismatch)"

definition l2_squared :: "vector \<Rightarrow> vector \<Rightarrow> real" where
  "l2_squared u v = sum_list (map (\<lambda>(a, b). (a - b) * (a - b)) (zip u v))"

definition index_search :: "vector_index \<Rightarrow> vector \<Rightarrow> int \<Rightarrow> error + (nat \<times> real) list" where
  "index_search ix query_vector k =
     (if length query_vector \<noteq> vi_dimension ix then Inl DimensionMismatch
      else Inr (take (nat k)
                 (sort_key snd
                   (zip [0..<length (vi_rows ix)]
                        (map (l2_squared query_vector) (vi_rows ix))))))"

text \<open>
  Modelled from the spec: the batch form the collection calls, one search per query
  vector, failing as soon as one search fails.
\<close>

fun search_all :: "vector_index \<Rightarrow> vector list \<Rightarrow> int \<Rightarrow> error + (nat \<times> real) list list" where
  "search_all ix [] k = Inr []"
| "search_all ix (q # qs) k =
     (case index_search ix q k of
        Inl e \<Rightarrow> Inl e
      | Inr hits \<Rightarrow>
          (case search_all ix qs k of
             Inl e \<Rightarrow> Inl e
           | Inr rest \<Rightarrow> Inr (hits # rest)))"

section \<open>services/faiss\_store.py: FAISSCollection\<close>

text \<open>
  The embedding model is an external collaborator; the collection holds it as the
  function \<^verbatim>\<open>encode\<close>, which returns one vector per text or raises.
\<close>

record collection =
  name :: string
  persist_dir :: string
  embedding_model :: "string list \<Rightarrow> error + vector list"
  dimension :: nat
  index :: vector_index
  documents :: "string list"
  metadatas :: "pydict list"
  ids :: "string list"

text \<open>
  The two files of a collection. A file is missing, present but not loadable, or holds
  a value; the metadata file holds the pickled dict of documents, metadatas and ids.
\<close>

datatype 'a file_state = Missing | Unreadable | Stored 'a

record disk =
  index_file :: "vector_index file_state"
  meta_file :: "(string list \<times> pydict list \<times> string list) file_state"

type_synonym store = "collection \<times> disk"

text \<open>
  What the operating system does with the writes of one call of \_persist: creating the
  directory may fail, and each file write succeeds, fails leaving the file as it was, or
  fails leaving a truncated file.
\<close>

datatype write_result = Succeeds | Fails_untouched | Fails_truncated

record io =
  makedirs_fails :: bool
  index_write :: write_result
  meta_write :: write_result

definition write_file :: "write_result \<Rightarrow> 'a \<Rightarrow> 'a file_state \<Rightarrow> 'a file_state \<times> error option" where
  "write_file r content old =
     (case r of
        Succeeds \<Rightarrow> (Stored content, None)
      | Fails_untouched \<Rightarrow> (old, Some OSError)
      | Fails_truncated \<Rightarrow> (Unreadable, Some OSError))"

text \<open>\_create\_new\_index\<close>

definition create_new_index :: "collection \<Rightarrow> collection" where
  "create_new_index c =
     c\<lparr>index := index_create (dimension c), documents := [], metadatas := [], ids := []\<rparr>"

text \<open>
  \_load\_or\_create: both files must exist; a failure while reading either of them is
  caught and a new index is created.
\<close>

definition load_or_create :: "collection \<Rightarrow> disk \<Rightarrow> collection" where
  "load_or_create c dk =
     (if index_file dk \<noteq> Missing \<and> meta_file dk \<noteq> Missing
      then (case index_file dk of
              Stored ix \<Rightarrow>
                (case meta_file dk of
                   Stored (docs, metas, is) \<Rightarrow>
                     c\<lparr>index := ix, documents := docs, metadatas := metas, ids := is\<rparr>
                 | _ \<Rightarrow> create_new_index c)
            | _ \<Rightarrow> create_new_index c)
      else create_new_index c)"

text \<open>
  \_\_init\_\_: the fields are set (the index to \<^verbatim>\<open>None\<close>, here an empty index, and
  every path of \_load\_or\_create assigns it), then \_load\_or\_create runs.
\<close>

definition init :: "string \<Rightarrow> string \<Rightarrow> (string list \<Rightarrow> error + vector list) \<Rightarrow> disk \<Rightarrow> collection" where
  "init nm dir model dk =
     load_or_create
       \<lparr>name = nm, persist_dir = dir, embedding_model = model, dimension = 384,
        index = index_create 384, documents = [], metadatas = [], ids = []\<rparr> dk"

text \<open>
  The body of the \<^verbatim>\<open>try\<close> in \_persist: the index file is written first, then the
  metadata file; the first failure ends it.
\<close>

definition persist_try :: "io \<Rightarrow> collection \<Rightarrow> disk \<Rightarrow> disk \<times> error option" where
  "persist_try w c dk =
     (if makedirs_fails w then (dk, Some OSError)
      else (case write_file (index_write w) (index c) (index_file dk) of
              (f, Some e) \<Rightarrow> (dk\<lparr>index_file := f\<rparr>, Some e)
            | (f, None) \<Rightarrow>
                (case write_file (meta_write w) (documents c, metadatas c, ids c) (meta_file dk) of
                   (g, r) \<Rightarrow> (dk\<lparr>index_file := f, meta_file := g\<rparr>, r))))"

text \<open>
  \_persist: \<^verbatim>\<open>except Exception as e: print(...)\<close>, so it returns normally whatever
  happened; the first component is the exception it raises, which is none.
\<close>

definition persist :: "io \<Rightarrow> collection \<Rightarrow> disk \<Rightarrow> error option \<times> disk" where
  "persist w c dk =
     (case persist_try w c dk of
        (dk', Some e) \<Rightarrow> (None, dk')
      | (dk', None) \<Rightarrow> (None, dk'))"

text \<open>
  add. An exception of the embedding model or of the index leaves the collection as it
  was. \<^verbatim>\<open>documents\<close> and \<^verbatim>\<open>metadatas\<close> may be \<^verbatim>\<open>None\<close>.
\<close>

definition add ::
  "io \<Rightarrow> string list \<Rightarrow> string list option \<Rightarrow> pydict list option \<Rightarrow> store \<Rightarrow> (error + unit) \<times> store" where
  "add w new_ids documents_arg metadatas_arg st =
     (case documents_arg of
        None \<Rightarrow> (Inr (), st)
      | Some docs \<Rightarrow>
          if docs = [] then (Inr (), st)
          else (case embedding_model (fst st) docs of
                  Inl e \<Rightarrow> (Inl e, st)
                | Inr embeddings \<Rightarrow>
                    (case index_add (index (fst st)) embeddings of
                       Inl e \<Rightarrow> (Inl e, st)
                     | Inr ix \<Rightarrow>
                         (let metas = (case metadatas_arg of
                                          None \<Rightarrow> replicate (length docs) []
                                        | Some ms \<Rightarrow> if ms = [] then replicate (length docs) [] else ms);
                              c = (fst st)\<lparr>index := ix,
                                           documents := documents (fst st) @ docs,
                                           metadatas := metadatas (fst st) @ metas,
                                           ids := ids (fst st) @ new_ids\<rparr>
                          in (case persist w c (snd st) of
                                (Some e, dk) \<Rightarrow> (Inl e, (c, dk))
                              | (None, dk) \<Rightarrow> (Inr (), (c, dk)))))))"

text \<open>get: the result dict, and the loop over \<^verbatim>\<open>enumerate(self.metadatas)\<close>.\<close>

record get_result =
  got_ids :: "string list"
  got_documents :: "string list"
  got_metadatas :: "pydict list"

text \<open>\<^verbatim>\<open>all(meta.get(k) == v for k, v in where.items())\<close>\<close>

definition matches :: "pydict \<Rightarrow> pydict \<Rightarrow> bool" where
  "matches meta where_arg = list_all (\<lambda>(k, v). dict_get meta k = v) where_arg"

fun get_loop :: "collection \<Rightarrow> pydict \<Rightarrow> (nat \<times> pydict) list \<Rightarrow> get_result \<Rightarrow> error + get_result" where
  "get_loop c where_arg [] acc = Inr acc"
| "get_loop c where_arg ((i, meta) # rest) acc =
     (if matches meta where_arg
      then (if i < length (ids c)
            then (if i < length (documents c)
                  then get_loop c where_arg rest
                         \<lparr>got_ids = got_ids acc @ [ids c ! i],
                          got_documents = got_documents acc @ [documents c ! i],
                          got_metadatas = got_metadatas acc @ [meta]\<rparr>
                  else Inl IndexError)
            else Inl IndexError)
      else get_loop c where_arg rest acc)"

definition get :: "collection \<Rightarrow> pydict option \<Rightarrow> error + get_result" where
  "get c where_arg =
     (let everything = \<lparr>got_ids = ids c, got_documents = documents c, got_metadatas = metadatas c\<rparr>
      in case where_arg of
           None \<Rightarrow> Inr everything
         | Some w \<Rightarrow>
             if w = [] then Inr everything
             else get_loop c w (enumerate 0 (metadatas c))
                    \<lparr>got_ids = [], got_documents = [], got_metadatas = []\<rparr>)"

text \<open>query\<close>

record query_result =
  res_documents :: "string list list"
  res_distances :: "real list list"
  res_metadatas :: "pydict list list"

definition query :: "collection \<Rightarrow> string list \<Rightarrow> int \<Rightarrow> error + query_result" where
  "query c query_texts n_results =
     (if query_texts = [] \<or> length (documents c) = 0
      then Inr \<lparr>res_documents = [[]], res_distances = [[]], res_metadatas = [[]]\<rparr>
      else (case embedding_model c query_texts of
              Inl e \<Rightarrow> Inl e
            | Inr query_embedding \<Rightarrow>
                (let k = min n_results (int (length (documents c)))
                 in case search_all (index c) query_embedding k of
                      Inl e \<Rightarrow> Inl e
                    | Inr hits \<Rightarrow>
                        Inr \<lparr>res_documents =
                               map (\<lambda>h. map (\<lambda>i. documents c ! i)
                                          (filter (\<lambda>i. i < length (documents c)) (map fst h))) hits,
                             res_distances = map (map snd) hits,
                             res_metadatas =
                               map (\<lambda>h. map (\<lambda>i. metadatas c ! i)
                                          (filter (\<lambda>i. i < length (metadatas c)) (map fst h))) hits\<rparr>)))"

definition count :: "collection \<Rightarrow> nat" where
  "count c = length (documents c)"

section \<open>services/embeddings.py: chunk\_and\_store and retrieve\_context\<close>

text \<open>
  The text splitter and \<^verbatim>\<open>uuid.uuid4\<close> are external: \<open>split_text chunk_size
  chunk_overlap text\<close> is the list of chunks or an exception, and \<open>uuid4 i\<close> is the
  id drawn for the \<open>i\<close>-th chunk of this call.
\<close>

definition source_given :: "string option \<Rightarrow> bool" where
  "source_given source = (case source of None \<Rightarrow> False | Some s \<Rightarrow> s \<noteq> [])"

definition already_stored :: "collection \<Rightarrow> string option \<Rightarrow> bool" where
  "already_stored c source =
     (case source of
        None \<Rightarrow> False
      | Some s \<Rightarrow>
          if s = [] then False
          else (case get c (Some [(''source'', PStr s)]) of
                  Inl e \<Rightarrow> False
                | Inr existing \<Rightarrow> length (got_ids existing) > 0))"

definition chunk_and_store ::
  "(int \<Rightarrow> int \<Rightarrow> string \<Rightarrow> error + string list) \<Rightarrow> (nat \<Rightarrow> string) \<Rightarrow> io \<Rightarrow>
   string \<Rightarrow> string option \<Rightarrow> int \<Rightarrow> int \<Rightarrow> store \<Rightarrow> (error + nat \<times> bool) \<times> store" where
  "chunk_and_store split_text uuid4 w text source chunk_size chunk_overlap st =
     (if already_stored (fst st) source then (Inr (0, True), st)
      else (case split_text chunk_size chunk_overlap text of
              Inl e \<Rightarrow> (Inl e, st)
            | Inr chunks \<Rightarrow>
                (let new_ids = map uuid4 [0..<length chunks];
                     metas = map (\<lambda>_. case source of
                                         None \<Rightarrow> []
                                       | Some s \<Rightarrow> if s = [] then [] else [(''source'', PStr s)]) chunks
                 in case add w new_ids (Some chunks) (Some metas) st of
                      (Inl e, st') \<Rightarrow> (Inl e, st')
                    | (Inr u, st') \<Rightarrow> (Inr (length chunks, False), st'))))"

text \<open>
  The body of the \<^verbatim>\<open>try\<close> in retrieve\_context. \<^verbatim>\<open>results.get("documents", [[]])[0]\<close>
  raises IndexError on an empty list.
\<close>

definition retrieve_try :: "string \<Rightarrow> collection \<Rightarrow> int \<Rightarrow> string option \<Rightarrow> error + string \<times> string" where
  "retrieve_try q c n_results fallback_text =
     (let cnt = count c
      in if cnt = 0 then Inr ([], ''none'')
         else (case query c [q] (min (n_results * 2) (int cnt)) of
                 Inl e \<Rightarrow> Inl e
               | Inr results \<Rightarrow>
                   (case res_documents results of
                      [] \<Rightarrow> Inl IndexError
                    | docs # others \<Rightarrow>
                        if docs \<noteq> [] \<and> length docs > 0
                        then Inr (join [newline, newline] (slice_to n_results docs), ''semantic'')
                        else (let keyword_context =
                                    (case fallback_text of
                                       None \<Rightarrow> []
                                     | Some ft \<Rightarrow> if ft = [] then [] else keyword_search ft q n_results)
                              in if keyword_context \<noteq> [] then Inr (keyword_context, ''keyword'')
                                 else Inr ([], ''none'')))))"

text \<open>retrieve\_context: \<^verbatim>\<open>except Exception\<close> turns every failure into \<^verbatim>\<open>("", "error")\<close>.\<close>

definition retrieve_context :: "string \<Rightarrow> collection \<Rightarrow> int \<Rightarrow> string option \<Rightarrow> string \<times> string" where
  "retrieve_context q c n_results fallback_text =
     (case retrieve_try q c n_results fallback_text of
        Inl e \<Rightarrow> ([], ''error'')
      | Inr r \<Rightarrow> r)"

section \<open>Invariants and example values\<close>

text \<open>The three lists of a collection have the same length.\<close>

definition aligned :: "collection \<Rightarrow> bool" where
  "aligned c \<longleftrightarrow>
     length (ids c) = length (documents c) \<and> length (metadatas c) = length (documents c)"

text \<open>Invariant I1: the lists and the index have the same size.\<close>

definition consistent :: "collection \<Rightarrow> bool" where
  "consistent c \<longleftrightarrow> aligned c \<and> index_size (index c) = length (documents c)"

text \<open>The persisted files agree with each other when both can be loaded.\<close>

definition disk_consistent :: "disk \<Rightarrow> bool" where
  "disk_consistent dk =
     (case index_file dk of
        Stored ix \<Rightarrow>
          (case meta_file dk of
             Stored (docs, metas, is) \<Rightarrow>
               length is = length docs \<and> length metas = length docs \<and>
               index_size ix = length docs
           | _ \<Rightarrow> True)
      | _ \<Rightarrow> True)"

text \<open>\<^verbatim>\<open>{"source": s}\<close>\<close>

definition source_dict :: "string \<Rightarrow> pydict" where
  "source_dict s = [(''source'', PStr s)]"

definition all_have_source :: "collection \<Rightarrow> bool" where
  "all_have_source c = list_all (\<lambda>meta. has_key meta ''source'') (metadatas c)"

text \<open>
  Example collaborators: an embedding model that maps a text to the vector whose 384
  coordinates are the length of the text, one that always fails, a splitter that
  returns the text as its only chunk, and ids \<open>u\<close>, \<open>uu\<close>, ...
\<close>

definition length_model :: "string list \<Rightarrow> error + vector list" where
  "length_model texts = Inr (map (\<lambda>t. replicate 384 (real (length t))) texts)"

definition failing_model :: "string list \<Rightarrow> error + vector list" where
  "failing_model texts = Inl EmbeddingError"

definition whole_text :: "int \<Rightarrow> int \<Rightarrow> string \<Rightarrow> error + string list" where
  "whole_text chunk_size chunk_overlap text = Inr [text]"

definition uuid_u :: "nat \<Rightarrow> string" where
  "uuid_u i = replicate (Suc i) CHR ''u''"

definition empty_disk :: disk where
  "empty_disk = \<lparr>index_file = Missing, meta_file = Missing\<rparr>"

definition writes_succeed :: io where
  "writes_succeed = \<lparr>makedirs_fails = False, index_write = Succeeds, meta_write = Succeeds\<rparr>"

definition index_write_fails :: io where
  "index_write_fails =
     \<lparr>makedirs_fails = False, index_write = Fails_untouched, meta_write = Succeeds\<rparr>"

definition meta_write_fails :: io where
  "meta_write_fails =
     \<lparr>makedirs_fails = False, index_write = Succeeds, meta_write = Fails_untouched\<rparr>"

text \<open>A collection constructed on an empty directory.\<close>

definition fresh :: collection where
  "fresh = init ''pdf'' ''faiss_db'' length_model empty_disk"

text \<open>The store after one chunk\_and\_store of the text "hello" from "a.pdf".\<close>

definition stored_once :: store where
  "stored_once =
     snd (chunk_and_store whole_text uuid_u writes_succeed ''hello'' (Some ''a.pdf'') 1000 200
            (fresh, empty_disk))"

text \<open>
  Two adds, the second with a failing write of the metadata file, and the collection
  constructed from the files they leave.
\<close>

definition first_added :: store where
  "first_added =
     snd (add writes_succeed [''id-1''] (Some [''first'']) (Some [source_dict ''a.pdf''])
            (fresh, empty_disk))"

definition second_added :: store where
  "second_added =
     snd (add meta_write_fails [''id-2''] (Some [''second'']) (Some [source_dict ''b.pdf''])
            first_added)"

definition reloaded :: collection where
  "reloaded = init ''pdf'' ''faiss_db'' length_model (snd second_added)"

text \<open>
  The value \<^verbatim>\<open>keyword_context\<close> of retrieve\_context: the keyword search runs only when a
  non-empty fallback text is given.
\<close>

definition keyword_fallback :: "string \<Rightarrow> int \<Rightarrow> string option \<Rightarrow> string" where
  "keyword_fallback q n_results fallback_text =
     (case fallback_text of
        None \<Rightarrow> []
      | Some ft \<Rightarrow> if ft = [] then [] else keyword_search ft q n_results)"

text \<open>A store with three documents of lengths 2, 6 and 1, and a query result on it.\<close>

definition three_docs :: store where
  "three_docs =
     snd (add writes_succeed [''id-1'', ''id-2'', ''id-3''] (Some [''aa'', ''bbbbbb'', ''c''])
            (Some [source_dict ''a.pdf'', source_dict ''a.pdf'', source_dict ''a.pdf''])
            (fresh, empty_disk))"

definition ranked_example :: query_result where
  "ranked_example =
     \<lparr>res_documents = [[''aa'', ''c'', ''bbbbbb'']], res_distances = [[0, 384, 6144]],
      res_metadatas = [[source_dict ''a.pdf'', source_dict ''a.pdf'', source_dict ''a.pdf'']]\<rparr>"

text \<open>A text of four lines that all contain the word apples.\<close>

definition four_lines :: string where
  "four_lines =
     ''apples are red'' @ [newline] @ ''apples are green'' @ [newline] @
     ''apples are sweet'' @ [newline] @ ''apples are round''"

text \<open>A collection with one document whose embedding model fails.\<close>

definition broken :: collection where
  "broken = init ''pdf'' ''faiss_db'' failing_model (snd first_added)"

definition example_text :: string where
  "example_text =
     ''apples are red'' @ [newline] @ ''bananas are yellow'' @ [newline] @ ''cars are fast''"

section \<open>Keyword search\<close>

lemma is_prefix_iff: "is_prefix w s \<longleftrightarrow> (\<exists>suf. s = w @ suf)"
  by (induction w s rule: is_prefix.induct) auto

lemma contains_iff: "contains s w \<longleftrightarrow> (\<exists>pre suf. s = pre @ w @ suf)"
proof (induction s)
  case Nil
  then show ?case by auto
next
  case (Cons c cs)
  show ?case
  proof
    assume "contains (c # cs) w"
    then consider "is_prefix w (c # cs)" | "contains cs w" by auto
    then show "\<exists>pre suf. c # cs = pre @ w @ suf"
    proof cases
      case 1
      then obtain suf where "c # cs = w @ suf" by (auto simp: is_prefix_iff)
      then have "c # cs = [] @ w @ suf" by simp
      then show ?thesis by blast
    next
      case 2
      then obtain pre suf where "cs = pre @ w @ suf" using Cons.IH by auto
      then have "c # cs = (c # pre) @ w @ suf" by simp
      then show ?thesis by blast
    qed
  next
    assume "\<exists>pre suf. c # cs = pre @ w @ suf"
    then obtain pre suf where e: "c # cs = pre @ w @ suf" by blast
    show "contains (c # cs) w"
    proof (cases pre)
      case Nil
      with e have "is_prefix w (c # cs)" by (auto simp: is_prefix_iff)
      then show ?thesis by simp
    next
      case (Cons a pre')
      with e have "cs = pre' @ w @ suf" by simp
      then have "contains cs w" using Cons.IH by blast
      then show ?thesis by simp
    qed
  qed
qed

lemma line_score_eq:
  "line_score ql line =
     length (filter (\<lambda>word. \<exists>pre suf. lower line = pre @ word @ suf) (split_ws ql))"
  by (simp add: line_score_def contains_iff)

lemma score_lines_eq:
  "score_lines ql lines =
     map (\<lambda>line. (line_score ql line, line))
       (filter (\<lambda>line. strip line \<noteq> [] \<and> 0 < line_score ql line) lines)"
  by (induction lines) (auto simp: Let_def)

lemma sort_desc_sorted: "sorted_wrt (\<lambda>a b. fst b \<le> fst a) (sort_desc xs)"
proof -
  have "sorted (map (\<lambda>x. - int (fst x)) (sort_key (\<lambda>x. - int (fst x)) xs))"
    by (rule sorted_sort_key)
  then show ?thesis
    unfolding sort_desc_def sorted_map by simp
qed

lemma sort_desc_stable:
  "filter (\<lambda>x. fst x = k) (sort_desc xs) = filter (\<lambda>x. fst x = k) xs"
proof -
  have "filter (\<lambda>x. - int (fst x) = - int k) (sort_key (\<lambda>x. - int (fst x)) xs)
        = filter (\<lambda>x. - int (fst x) = - int k) xs"
    by (rule sort_key_stable)
  then show ?thesis by (simp add: sort_desc_def)
qed

lemma keyword_search_eq:
  "keyword_search ft q k = join [newline] (map snd (slice_to k (ranked_lines ft q)))"
  by (simp add: keyword_search_def ranked_lines_def Let_def sort_desc_def slice_to_def)

text \<open>
  C5. keyword\_search returns the first \<open>top_k\<close> ranked lines joined by newlines. The
  ranked lines are the non-blank lines with a positive score, each with its score,
  where the score of a line is the number of whitespace-separated tokens of the
  lowercased query that occur as substrings of the lowercased line; they are ordered by
  score descending, and lines of equal score keep the order in which they occur in the
  text. For the text "apples are red / bananas are yellow / cars are fast", the query
  "apples yellow" and \<open>top_k = 2\<close> the result is the first two lines in their
  original order.
\<close>

theorem keyword_search_ranking:
  "keyword_search full_text q top_k =
     join [newline] (map snd (slice_to top_k (ranked_lines full_text q)))
   \<and> score_lines (lower q) (split_lines full_text) =
       map (\<lambda>line. (line_score (lower q) line, line))
         (filter (\<lambda>line. strip line \<noteq> [] \<and> 0 < line_score (lower q) line)
            (split_lines full_text))
   \<and> line_score (lower q) line =
       length (filter (\<lambda>word. \<exists>pre suf. lower line = pre @ word @ suf)
                 (split_ws (lower q)))
   \<and> sorted_wrt (\<lambda>a b. fst b \<le> fst a) (ranked_lines full_text q)
   \<and> (\<forall>s. filter (\<lambda>x. fst x = s) (ranked_lines full_text q) =
            filter (\<lambda>x. fst x = s) (score_lines (lower q) (split_lines full_text)))
   \<and> keyword_search example_text ''apples yellow'' 2 =
       ''apples are red'' @ [newline] @ ''bananas are yellow''"
proof -
  have ex: "keyword_search example_text ''apples yellow'' 2 =
              ''apples are red'' @ [newline] @ ''bananas are yellow''"
    by code_simp
  show ?thesis
    using ex
    by (simp only: keyword_search_eq score_lines_eq line_score_eq ranked_lines_def
          sort_desc_sorted sort_desc_stable simp_thms)
qed

section \<open>add without documents\<close>

text \<open>
  C10. add with an empty or missing documents list returns normally and changes
  neither the collection (index, ids, documents, metadatas) nor the persisted files,
  whatever the ids and metadatas are.
\<close>

theorem add_without_documents:
  "add w new_ids None metadatas_arg (c, dk) = (Inr (), (c, dk))
   \<and> add w new_ids (Some []) metadatas_arg (c, dk) = (Inr (), (c, dk))"
  by (simp add: add_def)

section \<open>The store\<close>

lemmas example_defs =
  length_model_def failing_model_def whole_text_def uuid_u_def empty_disk_def
  writes_succeed_def index_write_fails_def meta_write_fails_def fresh_def source_dict_def

lemmas store_defs =
  Let_def init_def load_or_create_def create_new_index_def index_create_def add_def
  index_add_def persist_def persist_try_def write_file_def chunk_and_store_def
  already_stored_def get_def matches_def dict_get_def enumerate_eq_zip

lemma persist_eq: "persist w c dk = (None, fst (persist_try w c dk))"
  by (simp add: persist_def split: prod.splits option.splits)

lemma add_raises_unchanged:
  "add w new_ids documents_arg metadatas_arg st = (Inl e, st') \<Longrightarrow> st' = st"
  by (auto simp: add_def Let_def persist_eq split: option.splits if_splits sum.splits prod.splits)

lemma add_returns_fields:
  assumes "add w new_ids (Some docs) (Some metas) (c, dk) = (Inr u, (c', dk'))"
    and "docs \<noteq> []" and "metas \<noteq> []"
  shows "documents c' = documents c @ docs"
    and "metadatas c' = metadatas c @ metas"
    and "ids c' = ids c @ new_ids"
    and "\<exists>vs. embedding_model c docs = Inr vs \<and> index_add (index c) vs = Inr (index c')"
    and "embedding_model c' = embedding_model c"
  using assms
  by (auto simp: add_def Let_def persist_eq split: option.splits if_splits sum.splits prod.splits)

text \<open>
  On a collection whose lists have the same length the loop of get reads no index out
  of range, and it collects one entry per matching metadata dict.
\<close>

lemma get_loop_aligned:
  assumes "k + length ms \<le> length (ids c)" and "k + length ms \<le> length (documents c)"
  shows "\<exists>r. get_loop c w (enumerate k ms) acc = Inr r \<and>
             length (got_ids r) = length (got_ids acc) + length (filter (\<lambda>m. matches m w) ms)"
  using assms
proof (induction ms arbitrary: k acc)
  case Nil
  then show ?case by simp
next
  case (Cons m ms)
  have le: "Suc k + length ms \<le> length (ids c)" "Suc k + length ms \<le> length (documents c)"
    using Cons.prems by simp_all
  have k: "k < length (ids c)" "k < length (documents c)"
    using Cons.prems by simp_all
  show ?case
  proof (cases "matches m w")
    case True
    let ?acc = "\<lparr>got_ids = got_ids acc @ [ids c ! k],
                 got_documents = got_documents acc @ [documents c ! k],
                 got_metadatas = got_metadatas acc @ [m]\<rparr>"
    from Cons.IH [OF le, of ?acc] True k show ?thesis by simp
  next
    case False
    from Cons.IH [OF le, of acc] False show ?thesis by simp
  qed
qed

lemma already_stored_iff:
  assumes "aligned c" and "s \<noteq> []"
  shows "already_stored c (Some s) \<longleftrightarrow>
           (\<exists>m \<in> set (metadatas c). dict_get m ''source'' = PStr s)"
proof -
  let ?w = "[(''source'', PStr s)]"
  have "0 + length (metadatas c) \<le> length (ids c)"
    and "0 + length (metadatas c) \<le> length (documents c)"
    using assms(1) by (simp_all add: aligned_def)
  from get_loop_aligned [OF this, of ?w "\<lparr>got_ids = [], got_documents = [], got_metadatas = []\<rparr>"]
  obtain r where r: "get_loop c ?w (enumerate 0 (metadatas c))
                        \<lparr>got_ids = [], got_documents = [], got_metadatas = []\<rparr> = Inr r"
    and len: "length (got_ids r) = length (filter (\<lambda>m. matches m ?w) (metadatas c))"
    by auto
  have "already_stored c (Some s) \<longleftrightarrow> 0 < length (got_ids r)"
    using assms(2) r by (simp add: already_stored_def get_def)
  also have "\<dots> \<longleftrightarrow> (\<exists>m \<in> set (metadatas c). matches m ?w)"
    unfolding len by (simp add: filter_empty_conv)
  also have "\<dots> \<longleftrightarrow> (\<exists>m \<in> set (metadatas c). dict_get m ''source'' = PStr s)"
    by (simp add: matches_def)
  finally show ?thesis .
qed

text \<open>The two ways in which chunk\_and\_store returns.\<close>

lemma chunk_and_store_result:
  assumes "chunk_and_store sp u w text source cs co (c, dk) = (Inr (n, ex), (c', dk'))"
  shows "(ex \<and> n = 0 \<and> c' = c \<and> dk' = dk \<and> already_stored c source)
       \<or> (\<not> ex \<and> \<not> already_stored c source \<and>
            (\<exists>chunks. sp cs co text = Inr chunks \<and> n = length chunks \<and>
               fst (add w (map u [0..<n]) (Some chunks)
                      (Some (replicate n (if source_given source then source_dict (the source) else [])))
                      (c, dk)) = Inr () \<and>
               snd (add w (map u [0..<n]) (Some chunks)
                      (Some (replicate n (if source_given source then source_dict (the source) else [])))
                      (c, dk)) = (c', dk')))"
proof (cases "already_stored c source")
  case True
  with assms show ?thesis by (simp add: chunk_and_store_def)
next
  case False
  have m: "map (\<lambda>_. case source of None \<Rightarrow> []
                     | Some s \<Rightarrow> if s = [] then [] else [(''source'', PStr s)]) chunks
         = replicate (length chunks) (if source_given source then source_dict (the source) else [])"
    for chunks :: "string list"
    by (cases source) (simp_all add: map_replicate_const source_given_def source_dict_def)
  from assms False show ?thesis
    by (auto simp: chunk_and_store_def Let_def m split: sum.splits prod.splits)
qed

lemma stored_once_eq:
  "chunk_and_store whole_text uuid_u writes_succeed ''hello'' (Some ''a.pdf'') 1000 200
     (fresh, empty_disk) = (Inr (1, False), stored_once)"
  by (simp add: stored_once_def prod_eq_iff) (simp add: example_defs store_defs)

subsection \<open>Storing the same source again\<close>

text \<open>
  C1, as the code has it. For a non-empty source \<open>s\<close> and a collection whose ids,
  documents and metadatas have the same length: if a call of chunk\_and\_store with source
  \<open>s\<close> returns, and it either reported that the source exists or stored at least one
  chunk, then every later call with source \<open>s\<close> returns \<open>(0, True)\<close> and leaves the
  collection, its count and the persisted files as they are.
\<close>

theorem repeated_source_is_noop:
  assumes "s \<noteq> []" and "aligned c"
    and "chunk_and_store sp u w text (Some s) cs co (c, dk) = (Inr (n, ex), st1)"
    and "ex \<or> 0 < n"
  shows "chunk_and_store sp' u' w' text' (Some s) cs' co' st1 = (Inr (0, True), st1)
       \<and> count (fst (snd (chunk_and_store sp' u' w' text' (Some s) cs' co' st1))) = count (fst st1)"
proof -
  obtain c1 dk1 where st1: "st1 = (c1, dk1)" by (cases st1)
  have stored: "already_stored c1 (Some s)"
  proof (cases "already_stored c (Some s)")
    case True
    with assms(3) st1 show ?thesis by (simp add: chunk_and_store_def)
  next
    case False
    from chunk_and_store_result [OF assms(3)[unfolded st1]] False assms(1)
    obtain chunks where n: "n = length chunks"
      and a: "add w (map u [0..<n]) (Some chunks) (Some (replicate n (source_dict s))) (c, dk)
                = (Inr (), (c1, dk1))"
      by (auto simp: source_given_def prod_eq_iff)
    from chunk_and_store_result [OF assms(3)[unfolded st1]] False have "\<not> ex" by auto
    with assms(4) have pos: "0 < n" by simp
    with n have ne: "chunks \<noteq> []" "replicate n (source_dict s) \<noteq> []" by auto
    note f = add_returns_fields [OF a ne]
    have "aligned c1"
      using assms(2) f(1,2,3) n by (simp add: aligned_def)
    moreover have "source_dict s \<in> set (metadatas c1)"
      using f(2) pos by simp
    moreover have "dict_get (source_dict s) ''source'' = PStr s"
      by (simp add: dict_get_def source_dict_def)
    ultimately show ?thesis
      using assms(1) already_stored_iff by blast
  qed
  then show ?thesis by (simp add: chunk_and_store_def st1)
qed

theorem repeated_source_is_noop_witness:
  "''a.pdf'' \<noteq> [] \<and> aligned fresh
   \<and> chunk_and_store whole_text uuid_u writes_succeed ''hello'' (Some ''a.pdf'') 1000 200
        (fresh, empty_disk) = (Inr (1, False), stored_once)
   \<and> chunk_and_store whole_text uuid_u writes_succeed ''hello'' (Some ''a.pdf'') 1000 200
        stored_once = (Inr (0, True), stored_once)
   \<and> count (fst stored_once) = 1"
proof -
  have a: "aligned fresh" by (simp add: aligned_def example_defs store_defs)
  have s: "''a.pdf'' \<noteq> []" by simp
  have c: "count (fst stored_once) = 1"
    by (simp add: stored_once_def count_def example_defs store_defs)
  from repeated_source_is_noop [OF s a stored_once_eq] a c stored_once_eq
  show ?thesis by simp
qed

text \<open>
  C1 as stated fails for the empty source string: the existence check is skipped, the
  second call stores the chunk again and returns \<open>(1, False)\<close>, and the count goes
  from 1 to 2.
\<close>

theorem empty_source_stored_twice:
  "fst (chunk_and_store whole_text uuid_u writes_succeed ''hello'' (Some []) 1000 200
          (fresh, empty_disk)) = Inr (1, False)
   \<and> fst (chunk_and_store whole_text uuid_u writes_succeed ''hello'' (Some []) 1000 200
          (snd (chunk_and_store whole_text uuid_u writes_succeed ''hello'' (Some []) 1000 200
                  (fresh, empty_disk)))) = Inr (1, False)
   \<and> count (fst (snd (chunk_and_store whole_text uuid_u writes_succeed ''hello'' (Some []) 1000 200
          (fresh, empty_disk)))) = 1
   \<and> count (fst (snd (chunk_and_store whole_text uuid_u writes_succeed ''hello'' (Some []) 1000 200
          (snd (chunk_and_store whole_text uuid_u writes_succeed ''hello'' (Some []) 1000 200
                  (fresh, empty_disk)))))) = 2"
  by (simp add: example_defs store_defs count_def)

subsection \<open>The source key of stored metadata\<close>

text \<open>
  C9, as the code has it. When chunk\_and\_store is called with a non-empty source
  \<open>s\<close> and returns \<open>(n, already_exists)\<close>, the metadata dicts it appended are
  \<open>n\<close> copies of \<^verbatim>\<open>{"source": s}\<close>; so if every stored dict had the key "source"
  before, every stored dict has it afterwards.
\<close>

theorem chunk_and_store_metadata:
  assumes "s \<noteq> []"
    and "chunk_and_store sp u w text (Some s) cs co (c, dk) = (Inr (n, ex), (c', dk'))"
  shows "metadatas c' = metadatas c @ replicate n [(''source'', PStr s)]
       \<and> (all_have_source c \<longrightarrow> all_have_source c')"
proof -
  have m: "metadatas c' = metadatas c @ replicate n (source_dict s)"
  proof (cases "already_stored c (Some s)")
    case True
    with assms(2) show ?thesis by (simp add: chunk_and_store_def)
  next
    case False
    from chunk_and_store_result [OF assms(2)] False assms(1)
    obtain chunks where n: "n = length chunks"
      and a: "add w (map u [0..<n]) (Some chunks) (Some (replicate n (source_dict s))) (c, dk)
                = (Inr (), (c', dk'))"
      by (auto simp: source_given_def prod_eq_iff)
    show ?thesis
    proof (cases "chunks = []")
      case True
      with a n show ?thesis by (simp add: add_def)
    next
      case False
      with n have "replicate n (source_dict s) \<noteq> []" by simp
      from add_returns_fields(2) [OF a False this] show ?thesis .
    qed
  qed
  have "has_key (source_dict s) ''source''"
    by (simp add: has_key_def source_dict_def)
  then show ?thesis
    using m by (auto simp: all_have_source_def source_dict_def list_all_iff)
qed

theorem chunk_and_store_metadata_witness:
  "''a.pdf'' \<noteq> [] \<and> all_have_source fresh
   \<and> metadatas (fst stored_once) = [[(''source'', PStr ''a.pdf'')]]
   \<and> all_have_source (fst stored_once)"
proof -
  have s: "''a.pdf'' \<noteq> []" by simp
  have e: "chunk_and_store whole_text uuid_u writes_succeed ''hello'' (Some ''a.pdf'') 1000 200
             (fresh, empty_disk) = (Inr (1, False), (fst stored_once, snd stored_once))"
    by (simp add: stored_once_eq)
  have f: "all_have_source fresh" "metadatas fresh = []"
    by (simp_all add: all_have_source_def example_defs store_defs)
  from chunk_and_store_metadata [OF s e] f show ?thesis by simp
qed

text \<open>
  C9 as stated fails: without a source, chunk\_and\_store stores the empty dict, which
  has no "source" key.
\<close>

theorem no_source_no_key:
  "metadatas (fst (snd (chunk_and_store whole_text uuid_u writes_succeed ''hello'' None 1000 200
                          (fresh, empty_disk)))) = [[]]
   \<and> \<not> all_have_source
         (fst (snd (chunk_and_store whole_text uuid_u writes_succeed ''hello'' None 1000 200
                      (fresh, empty_disk))))"
  by (simp add: example_defs store_defs all_have_source_def has_key_def)

subsection \<open>Invariant I1\<close>

text \<open>
  C3, as the code has it. From a collection that satisfies I1, an add whose ids,
  documents and metadatas have the same length, and for which the embedding model
  returns one vector per document, leaves a collection that satisfies I1, whether it
  returns or raises. A newly created index satisfies I1. A collection constructed from
  the persisted files satisfies I1 when the two files agree with each other (or one of
  them is missing or cannot be loaded). get, query and count do not change the
  collection.
\<close>

theorem consistency_preserved:
  assumes "consistent c"
    and "length new_ids = length docs" and "length metas = length docs"
    and "\<forall>vs. embedding_model c docs = Inr vs \<longrightarrow> length vs = length docs"
  shows "consistent (fst (snd (add w new_ids (Some docs) (Some metas) (c, dk))))
       \<and> consistent (create_new_index c0)
       \<and> (disk_consistent dk0 \<longrightarrow> consistent (load_or_create c0 dk0))
       \<and> (disk_consistent dk0 \<longrightarrow> consistent (init nm dir model dk0))"
proof -
  have new: "consistent (create_new_index c1)" for c1
    by (simp add: consistent_def aligned_def create_new_index_def index_create_def index_size_def)
  have load: "consistent (load_or_create c1 dk0)" if "disk_consistent dk0" for c1
    using that new [of c1]
    by (auto simp: load_or_create_def disk_consistent_def consistent_def aligned_def
          split: file_state.splits prod.splits)
  have "consistent (fst (snd (add w new_ids (Some docs) (Some metas) (c, dk))))"
    using assms
    by (auto simp: add_def Let_def persist_eq consistent_def aligned_def index_size_def
          index_add_def split: sum.splits if_splits)
  with new load show ?thesis by (simp add: init_def)
qed

theorem consistency_preserved_witness:
  "consistent fresh \<and> consistent (fst first_added) \<and> count (fst first_added) = 1
   \<and> disk_consistent (snd first_added)
   \<and> consistent (init ''pdf'' ''faiss_db'' length_model (snd first_added))
   \<and> count (init ''pdf'' ''faiss_db'' length_model (snd first_added)) = 1"
proof -
  have c: "consistent fresh"
    by (simp add: consistent_def aligned_def index_size_def example_defs store_defs)
  have l: "length [''id-1''] = length [''first'']"
    "length [source_dict ''a.pdf''] = length [''first'']"
    by simp_all
  have m: "\<forall>vs. embedding_model fresh [''first''] = Inr vs \<longrightarrow> length vs = length [''first'']"
    by (auto simp: example_defs store_defs)
  have d: "disk_consistent (snd first_added)"
    by (simp add: first_added_def disk_consistent_def index_size_def example_defs store_defs)
  have n: "count (fst first_added) = 1"
    "count (init ''pdf'' ''faiss_db'' length_model (snd first_added)) = 1"
    by (simp_all add: first_added_def count_def example_defs store_defs)
  from consistency_preserved [OF c l m, of writes_succeed empty_disk fresh "snd first_added"
      "''pdf''" "''faiss_db''" length_model] c d n
  show ?thesis by (simp add: first_added_def)
qed

text \<open>
  C3 as stated fails at construction: after an add whose metadata file could not be
  written, the index file has two rows and the metadata file one entry, and the
  collection constructed from them has an index of size 2 and one document.
\<close>

theorem stale_metadata_file_reloaded:
  "index_size (index reloaded) = 2 \<and> length (documents reloaded) = 1 \<and> \<not> consistent reloaded"
  by (simp add: reloaded_def second_added_def first_added_def example_defs store_defs
        consistent_def index_size_def)

subsection \<open>Write failures\<close>

text \<open>
  C2. \_persist never raises: it catches the failure of a write and prints it. So an
  add whose index file cannot be written returns normally, with the document in the
  collection and nothing on disk, although the write did fail.
\<close>

theorem add_hides_write_failure:
  "fst (persist w c dk) = None
   \<and> snd (persist_try index_write_fails c dk) = Some OSError
   \<and> fst (add index_write_fails [''id-1''] (Some [''first'']) (Some [source_dict ''a.pdf''])
            (fresh, empty_disk)) = Inr ()
   \<and> documents (fst (snd (add index_write_fails [''id-1''] (Some [''first''])
                            (Some [source_dict ''a.pdf'']) (fresh, empty_disk)))) = [''first'']
   \<and> snd (snd (add index_write_fails [''id-1''] (Some [''first''])
                 (Some [source_dict ''a.pdf'']) (fresh, empty_disk))) = empty_disk"
  by (simp add: persist_eq) (simp add: example_defs store_defs)

section \<open>The vector index and query\<close>

lemma l2_replicate: "l2_squared (replicate n a) (replicate n b) = real n * ((a - b) * (a - b))"
  by (simp add: l2_squared_def zip_replicate sum_list_replicate)

lemma index_search_Inr:
  assumes "index_search ix qv k = Inr hits"
  shows "hits = take (nat k) (sort_key snd (zip [0..<index_size ix] (map (l2_squared qv) (vi_rows ix))))"
  using assms by (auto simp: index_search_def index_size_def split: if_splits)

lemma index_search_sorted:
  assumes "index_search ix qv k = Inr hits"
  shows "sorted (map snd hits)"
proof -
  let ?all = "sort_key snd (zip [0..<index_size ix] (map (l2_squared qv) (vi_rows ix)))"
  have "sorted (map snd ?all)" by (rule sorted_sort_key)
  then have "sorted (take (nat k) (map snd ?all))" by (rule sorted_wrt_take)
  then show ?thesis
    unfolding index_search_Inr [OF assms] take_map .
qed

lemma index_search_length:
  assumes "index_search ix qv k = Inr hits"
  shows "length hits = min (nat k) (index_size ix)"
  unfolding index_search_Inr [OF assms] by (simp add: index_size_def)

lemma index_search_member:
  assumes "index_search ix qv k = Inr hits" and "(i, d) \<in> set hits"
  shows "i < index_size ix \<and> d = l2_squared qv (vi_rows ix ! i)"
proof -
  from assms(2) have "(i, d) \<in> set (zip [0..<index_size ix] (map (l2_squared qv) (vi_rows ix)))"
    unfolding index_search_Inr [OF assms(1)] by (auto dest: in_set_takeD)
  then show ?thesis
    by (auto simp: in_set_zip index_size_def)
qed

lemma index_search_all_rows:
  assumes "index_search ix qv k = Inr hits" and "index_size ix \<le> nat k"
  shows "fst ` set hits = {0..<index_size ix}"
proof -
  let ?z = "zip [0..<index_size ix] (map (l2_squared qv) (vi_rows ix))"
  have "length (sort_key snd ?z) = index_size ix" by (simp add: index_size_def)
  with assms(2) have "hits = sort_key snd ?z"
    unfolding index_search_Inr [OF assms(1)] by simp
  then have "fst ` set hits = set (map fst ?z)" by simp
  also have "map fst ?z = [0..<index_size ix]"
    by (simp add: index_size_def)
  finally show ?thesis by simp
qed

lemma search_all_Inr:
  "search_all ix qs k = Inr hits \<Longrightarrow>
     length hits = length qs \<and> (\<forall>r < length qs. index_search ix (qs ! r) k = Inr (hits ! r))"
proof (induction qs arbitrary: hits)
  case Nil
  then show ?case by simp
next
  case (Cons q qs)
  from Cons.prems obtain h rest where h: "index_search ix q k = Inr h"
    and rest: "search_all ix qs k = Inr rest" and hits: "hits = h # rest"
    by (auto split: sum.splits)
  from Cons.IH [OF rest] h hits show ?case
    by (auto simp: nth_Cons split: nat.splits)
qed

lemma query_cases:
  assumes "query c qts n = Inr results"
  shows "((qts = [] \<or> documents c = []) \<and>
            results = \<lparr>res_documents = [[]], res_distances = [[]], res_metadatas = [[]]\<rparr>)
       \<or> (qts \<noteq> [] \<and> documents c \<noteq> [] \<and>
            (\<exists>qvs hits. embedding_model c qts = Inr qvs \<and>
               search_all (index c) qvs (min n (int (length (documents c)))) = Inr hits \<and>
               res_documents results =
                 map (\<lambda>h. map (\<lambda>i. documents c ! i)
                            (filter (\<lambda>i. i < length (documents c)) (map fst h))) hits \<and>
               res_distances results = map (map snd) hits))"
  using assms
  by (auto simp: query_def Let_def split: if_splits sum.splits)

lemma query_documents_positive:
  assumes "query c qts n = Inr results" and "docs \<in> set (res_documents results)" and "docs \<noteq> []"
  shows "0 < n"
proof -
  from query_cases [OF assms(1)] assms(2,3)
  obtain qvs hits where s: "search_all (index c) qvs (min n (int (length (documents c)))) = Inr hits"
    and d: "res_documents results =
              map (\<lambda>h. map (\<lambda>i. documents c ! i)
                         (filter (\<lambda>i. i < length (documents c)) (map fst h))) hits"
    by auto
  from assms(2) d obtain h where h: "h \<in> set hits"
    and dh: "docs = map (\<lambda>i. documents c ! i)
                      (filter (\<lambda>i. i < length (documents c)) (map fst h))"
    by auto
  have ne: "h \<noteq> []"
  proof
    assume "h = []"
    with dh assms(3) show False by simp
  qed
  from h obtain r where r: "r < length hits" "hits ! r = h"
    by (auto simp: in_set_conv_nth)
  with search_all_Inr [OF s] have "index_search (index c) (qvs ! r) (min n (int (length (documents c)))) = Inr h"
    by auto
  note len = index_search_length [OF this]
  from ne have "0 < length h" by simp
  with len have "0 < nat (min n (int (length (documents c))))" by linarith
  then show ?thesis by linarith
qed

text \<open>The hits of one query row, and what query makes of them.\<close>

lemma query_row:
  assumes "query c qts n = Inr results"
    and "r < length (res_documents results)" and "qts \<noteq> []" and "documents c \<noteq> []"
  shows "\<exists>qvs h. embedding_model c qts = Inr qvs \<and>
           index_search (index c) (qvs ! r) (min n (int (length (documents c)))) = Inr h \<and>
           res_documents results ! r =
             map (\<lambda>p. documents c ! fst p) (filter (\<lambda>p. fst p < length (documents c)) h) \<and>
           res_distances results ! r = map snd h"
proof -
  from query_cases [OF assms(1)] assms(3,4)
  obtain qvs hits where e: "embedding_model c qts = Inr qvs"
    and s: "search_all (index c) qvs (min n (int (length (documents c)))) = Inr hits"
    and d: "res_documents results =
              map (\<lambda>h. map (\<lambda>i. documents c ! i)
                         (filter (\<lambda>i. i < length (documents c)) (map fst h))) hits"
    and ds: "res_distances results = map (map snd) hits"
    by auto
  from assms(2) d have r: "r < length hits" by simp
  with search_all_Inr [OF s]
  have h: "index_search (index c) (qvs ! r) (min n (int (length (documents c)))) = Inr (hits ! r)"
    by simp
  have "map (\<lambda>i. documents c ! i) (filter (\<lambda>i. i < length (documents c)) (map fst (hits ! r)))
        = map (\<lambda>p. documents c ! fst p) (filter (\<lambda>p. fst p < length (documents c)) (hits ! r))"
    by (simp add: filter_map comp_def)
  with d ds r e h show ?thesis by simp
qed

lemma three_docs_fields:
  "documents (fst three_docs) = [''aa'', ''bbbbbb'', ''c'']"
  "metadatas (fst three_docs) = [source_dict ''a.pdf'', source_dict ''a.pdf'', source_dict ''a.pdf'']"
  "ids (fst three_docs) = [''id-1'', ''id-2'', ''id-3'']"
  "index (fst three_docs) =
     \<lparr>vi_dimension = 384, vi_rows = [replicate 384 2, replicate 384 6, replicate 384 1]\<rparr>"
  "embedding_model (fst three_docs) = length_model"
  by (simp_all add: three_docs_def example_defs store_defs)

lemma three_docs_query:
  "query (fst three_docs) [''dd''] 3 = Inr ranked_example"
  by (simp add: query_def three_docs_fields length_model_def index_search_def l2_replicate
        ranked_example_def Let_def)

lemma three_docs_consistent: "consistent (fst three_docs)"
  by (simp add: consistent_def aligned_def index_size_def three_docs_fields)

text \<open>
  C8. (The index is modelled from the spec.) For each query text, the documents that
  query returns are the documents of the rows of a list of (row, distance) pairs whose
  distances ascend: for positions \<open>i < j\<close> the distance at \<open>i\<close> is at most the
  distance at \<open>j\<close>; each distance is the squared Euclidean distance between the
  query vector and the row; at most \<open>n_results\<close> pairs are returned. On a collection
  that satisfies I1 these distances are the returned distances and their number is
  \<open>min n_results count\<close>. The distances that query returns ascend. A search of the
  index returns \<open>min k size\<close> pairs in ascending distance, and every row when the
  index has at most \<open>k\<close> rows.
\<close>

theorem query_ranked_by_distance:
  assumes "query c query_texts n_results = Inr results"
    and "r < length (res_documents results)"
  shows "(\<exists>pairs.
            res_documents results ! r = map (\<lambda>p. documents c ! fst p) pairs
          \<and> (\<forall>i j. i < j \<and> j < length pairs \<longrightarrow> snd (pairs ! i) \<le> snd (pairs ! j))
          \<and> length pairs \<le> nat n_results
          \<and> (\<forall>p \<in> set pairs. fst p < count c \<and> fst p < index_size (index c) \<and>
                (\<exists>qvs. embedding_model c query_texts = Inr qvs \<and>
                   snd p = l2_squared (qvs ! r) (vi_rows (index c) ! fst p)))
          \<and> (consistent c \<longrightarrow>
                res_distances results ! r = map snd pairs \<and>
                length pairs = (if query_texts = [] then 0 else min (nat n_results) (count c))))
       \<and> sorted (res_distances results ! r)
       \<and> (\<forall>ix qv k hits. index_search ix qv k = Inr hits \<longrightarrow>
              sorted (map snd hits) \<and> length hits = min (nat k) (index_size ix) \<and>
              (index_size ix \<le> nat k \<longrightarrow> fst ` set hits = {0..<index_size ix}))"
proof -
  have search: "\<forall>ix qv k hits. index_search ix qv k = Inr hits \<longrightarrow>
              sorted (map snd hits) \<and> length hits = min (nat k) (index_size ix) \<and>
              (index_size ix \<le> nat k \<longrightarrow> fst ` set hits = {0..<index_size ix})"
    using index_search_sorted index_search_length index_search_all_rows by blast
  show ?thesis
  proof (cases "query_texts = [] \<or> documents c = []")
    case True
    with query_cases [OF assms(1)]
    have res: "results = \<lparr>res_documents = [[]], res_distances = [[]], res_metadatas = [[]]\<rparr>"
      by auto
    with assms(2) have r: "r = 0" by simp
    have "res_documents results ! r = map (\<lambda>p. documents c ! fst p) []
          \<and> (\<forall>i j. i < j \<and> j < length ([] :: (nat \<times> real) list) \<longrightarrow>
                 snd (([] :: (nat \<times> real) list) ! i) \<le> snd ([] ! j))
          \<and> length ([] :: (nat \<times> real) list) \<le> nat n_results
          \<and> (\<forall>p \<in> set ([] :: (nat \<times> real) list). fst p < count c \<and> fst p < index_size (index c) \<and>
                (\<exists>qvs. embedding_model c query_texts = Inr qvs \<and>
                   snd p = l2_squared (qvs ! r) (vi_rows (index c) ! fst p)))
          \<and> (consistent c \<longrightarrow>
                res_distances results ! r = map snd ([] :: (nat \<times> real) list) \<and>
                length ([] :: (nat \<times> real) list) =
                  (if query_texts = [] then 0 else min (nat n_results) (count c)))"
      using res r True by (auto simp: count_def)
    then have "\<exists>pairs.
            res_documents results ! r = map (\<lambda>p. documents c ! fst p) pairs
          \<and> (\<forall>i j. i < j \<and> j < length pairs \<longrightarrow> snd (pairs ! i) \<le> snd (pairs ! j))
          \<and> length pairs \<le> nat n_results
          \<and> (\<forall>p \<in> set pairs. fst p < count c \<and> fst p < index_size (index c) \<and>
                (\<exists>qvs. embedding_model c query_texts = Inr qvs \<and>
                   snd p = l2_squared (qvs ! r) (vi_rows (index c) ! fst p)))
          \<and> (consistent c \<longrightarrow>
                res_distances results ! r = map snd pairs \<and>
                length pairs = (if query_texts = [] then 0 else min (nat n_results) (count c)))"
      by (rule exI)
    moreover have "sorted (res_distances results ! r)" using res r by simp
    ultimately show ?thesis using search by (intro conjI)
  next
    case False
    then have ne: "query_texts \<noteq> []" "documents c \<noteq> []" by simp_all
    let ?len = "length (documents c)"
    from query_row [OF assms ne]
    obtain qvs h where e: "embedding_model c query_texts = Inr qvs"
      and h: "index_search (index c) (qvs ! r) (min n_results (int ?len)) = Inr h"
      and d: "res_documents results ! r =
                map (\<lambda>p. documents c ! fst p) (filter (\<lambda>p. fst p < ?len) h)"
      and ds: "res_distances results ! r = map snd h"
      by blast
    let ?pairs = "filter (\<lambda>p. fst p < ?len) h"
    have sh: "sorted (map snd h)" by (rule index_search_sorted [OF h])
    then have sp: "sorted (map snd ?pairs)" by (rule sorted_filter)
    have ord: "\<forall>i j. i < j \<and> j < length ?pairs \<longrightarrow> snd (?pairs ! i) \<le> snd (?pairs ! j)"
    proof (intro allI impI)
      fix i j assume ij: "i < j \<and> j < length ?pairs"
      then have "i \<le> j" "j < length (map snd ?pairs)" by simp_all
      from sorted_nth_mono [OF sp this] ij show "snd (?pairs ! i) \<le> snd (?pairs ! j)"
        by simp
    qed
    have "length ?pairs \<le> length h" by (rule length_filter_le)
    also have "\<dots> \<le> nat n_results"
      using index_search_length [OF h] by simp
    finally have len: "length ?pairs \<le> nat n_results" .
    have mem: "\<forall>p \<in> set ?pairs. fst p < count c \<and> fst p < index_size (index c) \<and>
                (\<exists>qvs. embedding_model c query_texts = Inr qvs \<and>
                   snd p = l2_squared (qvs ! r) (vi_rows (index c) ! fst p))"
    proof
      fix p assume p: "p \<in> set ?pairs"
      then have "(fst p, snd p) \<in> set h" by simp
      from index_search_member [OF h this] p e
      show "fst p < count c \<and> fst p < index_size (index c) \<and>
                (\<exists>qvs. embedding_model c query_texts = Inr qvs \<and>
                   snd p = l2_squared (qvs ! r) (vi_rows (index c) ! fst p))"
        by (simp add: count_def)
    qed
    have cons: "consistent c \<longrightarrow>
                res_distances results ! r = map snd ?pairs \<and>
                length ?pairs = (if query_texts = [] then 0 else min (nat n_results) (count c))"
    proof
      assume "consistent c"
      then have size: "index_size (index c) = ?len" by (simp add: consistent_def)
      have "\<forall>p \<in> set h. fst p < ?len"
      proof
        fix p assume "p \<in> set h"
        then have "(fst p, snd p) \<in> set h" by simp
        from index_search_member [OF h this] size show "fst p < ?len" by simp
      qed
      then have id: "?pairs = h" by (simp only: filter_id_conv)
      have "length h = min (nat n_results) (count c)"
        using index_search_length [OF h] by (simp add: size count_def)
      with id ds ne show "res_distances results ! r = map snd ?pairs \<and>
                length ?pairs = (if query_texts = [] then 0 else min (nat n_results) (count c))"
        by simp
    qed
    from d ord len mem cons
    have "\<exists>pairs.
            res_documents results ! r = map (\<lambda>p. documents c ! fst p) pairs
          \<and> (\<forall>i j. i < j \<and> j < length pairs \<longrightarrow> snd (pairs ! i) \<le> snd (pairs ! j))
          \<and> length pairs \<le> nat n_results
          \<and> (\<forall>p \<in> set pairs. fst p < count c \<and> fst p < index_size (index c) \<and>
                (\<exists>qvs. embedding_model c query_texts = Inr qvs \<and>
                   snd p = l2_squared (qvs ! r) (vi_rows (index c) ! fst p)))
          \<and> (consistent c \<longrightarrow>
                res_distances results ! r = map snd pairs \<and>
                length pairs = (if query_texts = [] then 0 else min (nat n_results) (count c)))"
      by (intro exI [of _ ?pairs] conjI)
    moreover have "sorted (res_distances results ! r)" using sh ds by simp
    ultimately show ?thesis using search by (intro conjI)
  qed
qed

theorem query_ranked_by_distance_witness:
  "query (fst three_docs) [''dd''] 3 = Inr ranked_example
   \<and> consistent (fst three_docs)
   \<and> res_documents ranked_example ! 0 = [''aa'', ''c'', ''bbbbbb'']
   \<and> res_distances ranked_example ! 0 = [0, 384, 6144]
   \<and> sorted (res_distances ranked_example ! 0)"
proof -
  have r: "0 < length (res_documents ranked_example)" by (simp add: ranked_example_def)
  from query_ranked_by_distance [OF three_docs_query r]
  have "sorted (res_distances ranked_example ! 0)" by (elim conjE)
  moreover have "res_documents ranked_example ! 0 = [''aa'', ''c'', ''bbbbbb'']"
    and "res_distances ranked_example ! 0 = [0, 384, 6144]"
    by (simp_all add: ranked_example_def)
  ultimately show ?thesis
    using three_docs_query three_docs_consistent by (intro conjI)
qed

section \<open>retrieve\_context\<close>

lemma retrieve_context_paths:
  "retrieve_context q c n_results fallback_text =
     (if count c = 0 then ([], ''none'')
      else (case query c [q] (min (n_results * 2) (int (count c))) of
              Inl e \<Rightarrow> ([], ''error'')
            | Inr results \<Rightarrow>
                (case res_documents results of
                   [] \<Rightarrow> ([], ''error'')
                 | docs # others \<Rightarrow>
                     if docs \<noteq> []
                     then (join [newline, newline] (slice_to n_results docs), ''semantic'')
                     else if keyword_fallback q n_results fallback_text \<noteq> []
                          then (keyword_fallback q n_results fallback_text, ''keyword'')
                          else ([], ''none''))))"
  by (simp add: retrieve_context_def retrieve_try_def keyword_fallback_def Let_def
        split: sum.splits list.splits)

lemma retrieve_context_keyword_path:
  assumes "retrieve_context q c n_results fallback_text = (context, ''keyword'')"
  shows "context = keyword_fallback q n_results fallback_text \<and> context \<noteq> []"
proof (cases "count c = 0")
  case True
  with assms show ?thesis by (simp add: retrieve_context_paths)
next
  case False
  show ?thesis
  proof (cases "query c [q] (min (n_results * 2) (int (count c)))")
    case (Inl e)
    with assms False show ?thesis by (simp add: retrieve_context_paths)
  next
    case (Inr results)
    show ?thesis
    proof (cases "res_documents results")
      case Nil
      with assms False Inr show ?thesis by (simp add: retrieve_context_paths)
    next
      case (Cons docs others)
      with assms False Inr show ?thesis
        by (cases "docs = []"; cases "keyword_fallback q n_results fallback_text = []")
           (simp_all add: retrieve_context_paths)
    qed
  qed
qed

lemma split_at_no_sep:
  "\<forall>c \<in> set x. \<not> p c \<Longrightarrow> p sep \<Longrightarrow> split_at p (x @ sep # rest) = x # split_at p rest"
  by (induction x) (simp_all add: Let_def)

lemma split_at_no_sep_end: "\<forall>c \<in> set x. \<not> p c \<Longrightarrow> split_at p x = [x]"
  by (induction x) (simp_all add: Let_def)

lemma split_at_join:
  assumes "ls \<noteq> []" and "\<forall>l \<in> set ls. \<forall>c \<in> set l. \<not> p c" and "p sep"
  shows "split_at p (join [sep] ls) = ls"
  using assms
proof (induction "[sep]" ls rule: join.induct)
  case 1
  then show ?case by simp
next
  case (2 x)
  then show ?case by (simp add: split_at_no_sep_end)
next
  case (3 x y zs)
  then show ?case by (simp add: split_at_no_sep)
qed

lemma split_at_pieces: "l \<in> set (split_at p s) \<Longrightarrow> c \<in> set l \<Longrightarrow> \<not> p c"
proof (induction s arbitrary: l)
  case Nil
  then show ?case by simp
next
  case (Cons a s)
  have ne: "split_at p s \<noteq> []" by (cases s) (simp_all add: Let_def)
  show ?case
  proof (cases "p a")
    case True
    with Cons.prems have "l = [] \<or> l \<in> set (split_at p s)" by (simp add: Let_def)
    with Cons.prems Cons.IH show ?thesis by auto
  next
    case False
    with Cons.prems have "l = a # hd (split_at p s) \<or> l \<in> set (tl (split_at p s))"
      by (simp add: Let_def)
    then show ?thesis
    proof
      assume l: "l = a # hd (split_at p s)"
      have "hd (split_at p s) \<in> set (split_at p s)" using ne by simp
      with Cons.IH Cons.prems(2) l False show ?thesis by auto
    next
      assume "l \<in> set (tl (split_at p s))"
      then have "l \<in> set (split_at p s)" using ne by (auto dest: list.set_sel(2))
      with Cons.IH Cons.prems(2) show ?thesis by auto
    qed
  qed
qed

lemma score_lines_subset: "set (map snd (score_lines ql lines)) \<subseteq> set lines"
  by (induction lines) (auto simp: Let_def)

lemma ranked_lines_subset: "(s, l) \<in> set (ranked_lines ft q) \<Longrightarrow> l \<in> set (split_lines ft)"
proof -
  assume "(s, l) \<in> set (ranked_lines ft q)"
  then have "(s, l) \<in> set (score_lines (lower q) (split_lines ft))"
    by (simp add: ranked_lines_def sort_desc_def)
  then have "l \<in> set (map snd (score_lines (lower q) (split_lines ft)))" by force
  with score_lines_subset show ?thesis by blast
qed

lemma slice_to_subset: "set (slice_to n xs) \<subseteq> set xs"
  by (auto simp: slice_to_def dest: in_set_takeD)

lemma slice_to_length: "0 \<le> n \<Longrightarrow> length (slice_to n xs) \<le> nat n"
  by (simp add: slice_to_def)

text \<open>
  The collection \<open>reloaded\<close> holds the document "first" while its index has the rows
  of "first" and "second". For a query text of six or more characters the nearest row
  is the second one, which has no document: query finds the row index 1, drops it
  because it is not below the number of documents, and returns no document.
\<close>

lemma reloaded_fields:
  "documents reloaded = [''first'']"
  "metadatas reloaded = [source_dict ''a.pdf'']"
  "index reloaded = \<lparr>vi_dimension = 384, vi_rows = [replicate 384 5, replicate 384 6]\<rparr>"
  "embedding_model reloaded = length_model"
  by (simp_all add: reloaded_def second_added_def first_added_def example_defs store_defs)

lemma reloaded_query_apples:
  "query reloaded [''apples''] 1 =
     Inr \<lparr>res_documents = [[]], res_distances = [[0]], res_metadatas = [[]]\<rparr>"
  by (simp add: query_def reloaded_fields length_model_def index_search_def l2_replicate Let_def)

lemma reloaded_query_apples_yellow:
  "query reloaded [''apples yellow''] 1 =
     Inr \<lparr>res_documents = [[]], res_distances = [[18816]], res_metadatas = [[]]\<rparr>"
  by (simp add: query_def reloaded_fields length_model_def index_search_def l2_replicate Let_def)

lemma reloaded_retrieve:
  assumes "query reloaded [q] 1 = Inr results" and "res_documents results = [[]]"
    and "0 < n" and "ft \<noteq> []" and "keyword_search ft q n \<noteq> []"
  shows "retrieve_context q reloaded n (Some ft) = (keyword_search ft q n, ''keyword'')"
proof -
  have "min (n * 2) (int (count reloaded)) = 1"
    using assms(3) by (simp add: count_def reloaded_fields(1))
  with assms show ?thesis
    by (simp add: retrieve_context_paths keyword_fallback_def count_def reloaded_fields(1))
qed

lemma kw_example: "keyword_search example_text ''apples yellow'' 2 =
              ''apples are red'' @ [newline] @ ''bananas are yellow''"
  by code_simp

lemma kw_four: "keyword_search four_lines ''apples'' 5 = four_lines"
  by code_simp

lemma kw_four3:
  "keyword_search four_lines ''apples'' 3 =
     ''apples are red'' @ [newline] @ ''apples are green'' @ [newline] @ ''apples are sweet''"
  by code_simp

lemma four_split: "length (split_lines four_lines) = 4"
  by code_simp

lemma broken_fields:
  "documents broken = [''first'']"
  "embedding_model broken = failing_model"
  by (simp_all add: broken_def first_added_def example_defs store_defs)

subsection \<open>Semantic search\<close>

text \<open>
  C4. On a non-empty collection retrieve\_context queries for
  \<open>min (n_results * 2) count\<close> results, and when the query returns at least one
  document for the query text, the result is the first \<open>n_results\<close> of these
  documents, in the order returned, joined by a blank line, with method "semantic".
\<close>

theorem retrieve_context_semantic:
  assumes "count c \<noteq> 0"
    and "query c [q] (min (n_results * 2) (int (count c))) = Inr results"
    and "res_documents results = docs # others" and "docs \<noteq> []"
  shows "retrieve_context q c n_results fallback_text =
           (join [newline, newline] (take (nat n_results) docs), ''semantic'')"
proof -
  have "docs \<in> set (res_documents results)" using assms(3) by simp
  from query_documents_positive [OF assms(2) this assms(4)]
  have "0 < n_results" by simp
  then have "slice_to n_results docs = take (nat n_results) docs"
    by (simp add: slice_to_def)
  with assms show ?thesis
    by (simp add: retrieve_context_def retrieve_try_def Let_def)
qed

theorem retrieve_context_semantic_witness:
  "count (fst three_docs) \<noteq> 0
   \<and> query (fst three_docs) [''dd''] (min (2 * 2) (int (count (fst three_docs)))) = Inr ranked_example
   \<and> retrieve_context ''dd'' (fst three_docs) 2 None =
       (''aa'' @ [newline, newline] @ ''c'', ''semantic'')"
proof -
  have c: "count (fst three_docs) \<noteq> 0" by (simp add: count_def three_docs_fields)
  have q: "query (fst three_docs) [''dd''] (min (2 * 2) (int (count (fst three_docs)))) = Inr ranked_example"
    by (simp add: count_def three_docs_fields(1) three_docs_query)
  have d: "res_documents ranked_example = [''aa'', ''c'', ''bbbbbb''] # []"
    by (simp add: ranked_example_def)
  have n: "[''aa'', ''c'', ''bbbbbb''] \<noteq> []" by simp
  from retrieve_context_semantic [OF c q d n, of None] c q
  show ?thesis by (simp add: numeral_2_eq_2)
qed

subsection \<open>Keyword fallback\<close>

text \<open>
  C6, as the code has it. When retrieve\_context answers with method "keyword", a
  fallback text was given and the context is keyword\_search of it with
  \<open>top_k = n_results\<close>: the lines of the context are the first \<open>n_results\<close> ranked
  lines, joined by newlines, so for \<open>n_results \<ge> 0\<close> there are at most \<open>n_results\<close>
  of them. The default \<open>top_k = 3\<close> of keyword\_search plays no part.
\<close>

theorem retrieve_context_keyword:
  assumes "retrieve_context q c n_results fallback_text = (context, ''keyword'')"
  shows "\<exists>ft. fallback_text = Some ft
            \<and> context = keyword_search ft q n_results
            \<and> split_lines context = map snd (slice_to n_results (ranked_lines ft q))
            \<and> context = join [newline] (split_lines context)
            \<and> (0 \<le> n_results \<longrightarrow> length (split_lines context) \<le> nat n_results)"
proof -
  from retrieve_context_keyword_path [OF assms]
  obtain ft where ft: "fallback_text = Some ft"
    and ctx: "context = keyword_search ft q n_results" and ne: "context \<noteq> []"
    by (cases fallback_text) (auto simp: keyword_fallback_def split: if_splits)
  let ?ls = "map snd (slice_to n_results (ranked_lines ft q))"
  have j: "context = join [newline] ?ls"
    using ctx by (simp add: keyword_search_eq)
  with ne have lne: "?ls \<noteq> []" by auto
  have "\<forall>l \<in> set ?ls. \<forall>ch \<in> set l. \<not> ch = newline"
  proof (intro ballI)
    fix l ch assume "l \<in> set ?ls" and ch: "ch \<in> set l"
    then obtain s where "(s, l) \<in> set (slice_to n_results (ranked_lines ft q))" by auto
    then have "(s, l) \<in> set (ranked_lines ft q)"
      by (rule subsetD [OF slice_to_subset])
    from ranked_lines_subset [OF this]
    have "l \<in> set (split_at (\<lambda>c. c = newline) ft)"
      by (simp only: split_lines_def)
    from split_at_pieces [OF this ch] show "\<not> ch = newline" .
  qed
  from split_at_join [OF lne, of "\<lambda>c. c = newline" newline, OF this]
  have sp: "split_lines context = ?ls"
    by (simp add: j split_lines_def)
  have "0 \<le> n_results \<longrightarrow> length ?ls \<le> nat n_results"
    using slice_to_length [of n_results "ranked_lines ft q"] by simp
  with ft ctx sp j show ?thesis by simp
qed


theorem retrieve_context_keyword_witness:
  "retrieve_context ''apples yellow'' reloaded 2 (Some example_text) =
     (''apples are red'' @ [newline] @ ''bananas are yellow'', ''keyword'')
   \<and> split_lines (''apples are red'' @ [newline] @ ''bananas are yellow'') =
       map snd (slice_to 2 (ranked_lines example_text ''apples yellow''))
   \<and> length (split_lines (''apples are red'' @ [newline] @ ''bananas are yellow'')) \<le> 2"
proof -
  have r: "retrieve_context ''apples yellow'' reloaded 2 (Some example_text) =
     (''apples are red'' @ [newline] @ ''bananas are yellow'', ''keyword'')"
    using reloaded_retrieve [OF reloaded_query_apples_yellow, of 2 example_text]
    by (simp add: kw_example) (simp add: example_text_def)
  from retrieve_context_keyword [OF r]
  obtain ft where f: "Some example_text = Some ft
            \<and> ''apples are red'' @ [newline] @ ''bananas are yellow'' = keyword_search ft ''apples yellow'' 2
            \<and> split_lines (''apples are red'' @ [newline] @ ''bananas are yellow'') =
                map snd (slice_to 2 (ranked_lines ft ''apples yellow''))
            \<and> ''apples are red'' @ [newline] @ ''bananas are yellow'' =
                join [newline] (split_lines (''apples are red'' @ [newline] @ ''bananas are yellow''))
            \<and> (0 \<le> (2::int) \<longrightarrow>
                 length (split_lines (''apples are red'' @ [newline] @ ''bananas are yellow'')) \<le> nat 2)" ..
  then have ft: "ft = example_text" by simp
  from f have "split_lines (''apples are red'' @ [newline] @ ''bananas are yellow'') =
                map snd (slice_to 2 (ranked_lines example_text ''apples yellow''))"
    unfolding ft by (elim conjE)
  moreover from f have "0 \<le> (2::int) \<longrightarrow>
      length (split_lines (''apples are red'' @ [newline] @ ''bananas are yellow'')) \<le> nat 2"
    by (elim conjE)
  then have "length (split_lines (''apples are red'' @ [newline] @ ''bananas are yellow'')) \<le> 2"
    by simp
  ultimately show ?thesis using r by (intro conjI)
qed

text \<open>
  C6 as stated fails: on the collection \<open>reloaded\<close>, with the query "apples" and
  \<open>n_results = 5\<close>, the semantic search returns no document and the fallback returns
  all four lines of the fallback text, where \<open>top_k = 3\<close> would return three.
\<close>

theorem fallback_returns_four_lines:
  "retrieve_context ''apples'' reloaded 5 (Some four_lines) = (four_lines, ''keyword'')
   \<and> length (split_lines four_lines) = 4
   \<and> keyword_search four_lines ''apples'' 3 \<noteq> four_lines"
proof -
  have "retrieve_context ''apples'' reloaded 5 (Some four_lines) = (four_lines, ''keyword'')"
    using reloaded_retrieve [OF reloaded_query_apples, of 5 four_lines]
    by (simp add: kw_four) (simp add: four_lines_def)
  moreover have "keyword_search four_lines ''apples'' 3 \<noteq> four_lines"
    by (simp add: kw_four3) (simp add: four_lines_def)
  ultimately show ?thesis using four_split by simp
qed

subsection \<open>Failures\<close>

text \<open>
  C7. retrieve\_context always returns a pair whose method is "semantic", "keyword",
  "none" or "error"; whenever the body of its \<^verbatim>\<open>try\<close> raises, and in particular when
  the query on a non-empty collection raises, the result is the empty context with
  method "error".
\<close>

theorem retrieve_context_total:
  "snd (retrieve_context q c n_results fallback_text) \<in> {''semantic'', ''keyword'', ''none'', ''error''}
   \<and> (\<forall>e. retrieve_try q c n_results fallback_text = Inl e \<longrightarrow>
          retrieve_context q c n_results fallback_text = ([], ''error''))
   \<and> (\<forall>e. count c \<noteq> 0 \<and> query c [q] (min (n_results * 2) (int (count c))) = Inl e \<longrightarrow>
          retrieve_context q c n_results fallback_text = ([], ''error''))"
proof -
  have m: "snd (retrieve_context q c n_results fallback_text)
             \<in> {''semantic'', ''keyword'', ''none'', ''error''}"
    unfolding retrieve_context_paths
    by (simp split: sum.splits list.splits)
  have e: "retrieve_context q c n_results fallback_text = ([], ''error'')"
    if "retrieve_try q c n_results fallback_text = Inl e" for e
    using that by (simp add: retrieve_context_def)
  have f: "retrieve_context q c n_results fallback_text = ([], ''error'')"
    if "count c \<noteq> 0 \<and> query c [q] (min (n_results * 2) (int (count c))) = Inl e" for e
    using that by (simp add: retrieve_context_paths)
  from m e f show ?thesis by blast
qed

theorem retrieve_context_total_witness:
  "count broken \<noteq> 0
   \<and> query broken [''what is it''] (min (5 * 2) (int (count broken))) = Inl EmbeddingError
   \<and> retrieve_context ''what is it'' broken 5 None = ([], ''error'')"
proof -
  have c: "count broken \<noteq> 0" by (simp add: count_def broken_fields)
  have q: "query broken [''what is it''] (min (5 * 2) (int (count broken))) = Inl EmbeddingError"
    by (simp add: query_def broken_fields failing_model_def)
  from retrieve_context_total [of "''what is it''" broken 5 None] c q
  show ?thesis by blast
qed

end
